theory Spec2Isabelle
  imports Main
begin

section \<open>Data model\<close>

text \<open>
  The module \<^verbatim>\<open>dataiter/write.pyx\<close> streams a lazily produced sequence of data chunks
  into a list, a file opened by path, or a file-like object handed in by the caller.
  Exceptions are values of \<open>error\<close>; every function that can raise returns the error
  together with the state it leaves behind.
\<close>

datatype error = KeyError | FileExistsError | ValueError | SourceError

text \<open>
  A chunk is either a numpy array (\<^verbatim>\<open>isinstance(data, np.ndarray)\<close> holds), carrying its
  dtype name and its buffer, or any other object, given by its bytes.
\<close>

datatype chunk = NdArray string string | Other string

fun is_ndarray :: "chunk \<Rightarrow> bool" where
  "is_ndarray (NdArray dt b) = True"
| "is_ndarray (Other b) = False"

text \<open>
  A Python iterator over a finite sequence, read one \<^verbatim>\<open>next()\<close> at a time: it yields an item
  and continues, is exhausted, or raises.  Pulling is destructing the value, so a lazy
  transform of an iterator is a function between such values.
\<close>

datatype 'a iter = StopIteration | Raise error | Yield 'a "'a iter"

fun of_list :: "'a list \<Rightarrow> 'a iter" where
  "of_list [] = StopIteration"
| "of_list (x # xs) = Yield x (of_list xs)"

fun yields :: "'a iter \<Rightarrow> 'a list" where
  "yields StopIteration = []"
| "yields (Raise e) = []"
| "yields (Yield x it) = x # yields it"

fun ending :: "'a iter \<Rightarrow> error option" where
  "ending StopIteration = None"
| "ending (Raise e) = Some e"
| "ending (Yield x it) = ending it"

text \<open>\<^verbatim>\<open>list(it)\<close>: all items in order, or the exception the iterator raises.\<close>

fun list_of_iter :: "'a iter \<Rightarrow> error + 'a list" where
  "list_of_iter StopIteration = Inr []"
| "list_of_iter (Raise e) = Inl e"
| "list_of_iter (Yield x it) =
     (case list_of_iter it of Inl e \<Rightarrow> Inl e | Inr xs \<Rightarrow> Inr (x # xs))"

subsection \<open>Streams and the world\<close>

text \<open>
  A writable stream object: its class (what \<^verbatim>\<open>isinstance(fileobj, BufferedWriter)\<close> tests),
  the calls made on it in order, and whether it has been closed.  A call is
  \<^verbatim>\<open>fileobj.write(data)\<close>, \<^verbatim>\<open>data.tofile(fileobj)\<close>, \<^verbatim>\<open>fileobj.flush()\<close> or \<^verbatim>\<open>fileobj.close()\<close>.
  The code of the module makes the first two only.
\<close>

datatype stream_class = BufferedWriter | CodecFile string

datatype call = CallWrite chunk | CallToFile chunk | CallFlush | CallClose

record stream =
  cls :: stream_class
  calls :: "call list"
  is_closed :: bool

type_synonym ref = nat

text \<open>
  The world outside the module: the files that exist, each with the stream that was
  opened on it, and the caller's open handles by reference.
\<close>

record world =
  files :: "string \<rightharpoonup> stream"
  handles :: "ref \<Rightarrow> stream"

definition fresh_stream :: "stream_class \<Rightarrow> stream" where
  "fresh_stream k = \<lparr>cls = k, calls = [], is_closed = False\<rparr>"

text \<open>
  Calling a file class as \<^verbatim>\<open>cls(filepath, mode)\<close>, with Python's meaning of the binary
  write modes: \<^verbatim>\<open>'xb'\<close> creates the file and fails if it exists, \<^verbatim>\<open>'wb'\<close> creates or
  truncates, \<^verbatim>\<open>'ab'\<close> creates or keeps what is there.  The new stream object is returned
  and is also the one registered for the path.
\<close>

definition open_file :: "stream_class \<Rightarrow> string \<Rightarrow> string \<Rightarrow> world \<Rightarrow> (error + stream) \<times> world" where
  "open_file k filepath mode w =
     (if mode = ''xb'' then
        (case files w filepath of
           Some f \<Rightarrow> (Inl FileExistsError, w)
         | None \<Rightarrow> (Inr (fresh_stream k), w\<lparr>files := (files w)(filepath \<mapsto> fresh_stream k)\<rparr>))
      else if mode = ''wb'' then
        (Inr (fresh_stream k), w\<lparr>files := (files w)(filepath \<mapsto> fresh_stream k)\<rparr>)
      else if mode = ''ab'' then
        (case files w filepath of
           Some f \<Rightarrow> (Inr (f\<lparr>is_closed := False\<rparr>), w\<lparr>files := (files w)(filepath \<mapsto> f\<lparr>is_closed := False\<rparr>)\<rparr>)
         | None \<Rightarrow> (Inr (fresh_stream k), w\<lparr>files := (files w)(filepath \<mapsto> fresh_stream k)\<rparr>))
      else (Inl ValueError, w))"

text \<open>
  \<^verbatim>\<open>fileobj.write(data)\<close> and \<^verbatim>\<open>data.tofile(fileobj)\<close>: both raise on a closed stream.
  \<open>CallToFile\<close> stands for the whole of numpy's \<^verbatim>\<open>tofile\<close>, which does more to the stream
  than write: see \<open>flushes\<close> below.
\<close>

definition stream_write :: "stream \<Rightarrow> chunk \<Rightarrow> error option \<times> stream" where
  "stream_write fileobj d =
     (if is_closed fileobj then (Some ValueError, fileobj)
      else (None, fileobj\<lparr>calls := calls fileobj @ [CallWrite d]\<rparr>))"

definition tofile :: "chunk \<Rightarrow> stream \<Rightarrow> error option \<times> stream" where
  "tofile d fileobj =
     (if is_closed fileobj then (Some ValueError, fileobj)
      else (None, fileobj\<lparr>calls := calls fileobj @ [CallToFile d]\<rparr>))"

subsection \<open>Collaborators imported by the module\<close>

text \<open>
  \<^verbatim>\<open>dataiter.compression\<close> and \<^verbatim>\<open>dataiter.iterate\<close> are imported, not defined, by the
  module.  They are parameters of the model: the two registries as finite maps (a key of
  \<open>COMPRESSION_CLASSES\<close> is \<^verbatim>\<open>None\<close> or a codec name, a value stands for the class of
  stream its constructor returns), the default codec, and the three transforms.  The
  transforms are taken to be lazy, as generators are: applying one pulls nothing, and
  what it does when pulled is the iterator it returns.
\<close>

record env =
  COMPRESSION_CLASSES :: "string option \<rightharpoonup> stream_class"
  DEFAULT_COMPRESSION :: "string option"
  FILE_CLASSES :: "string \<rightharpoonup> stream_class"
  iter_data :: "chunk iter \<Rightarrow> chunk iter"
  iter_as_dtype :: "chunk iter \<Rightarrow> string option \<Rightarrow> chunk iter"
  iter_compress :: "chunk iter \<Rightarrow> string \<Rightarrow> chunk iter"

section \<open>The functions of \<^verbatim>\<open>write.pyx\<close>\<close>

subsection \<open>\<^verbatim>\<open>os.path.splitext\<close>\<close>

text \<open>
  The POSIX \<^verbatim>\<open>splitext\<close> of the standard library: the extension starts at the last dot
  of the last path component, unless only dots precede it in that component.
  \<open>rfind\<close> is \<^verbatim>\<open>str.rfind\<close> (\<open>-1\<close> when the character is absent).
\<close>

definition rfind :: "string \<Rightarrow> char \<Rightarrow> int" where
  "rfind p c =
     (if c \<in> set p then int (length p) - 1 - int (length (takeWhile (\<lambda>x. x \<noteq> c) (rev p)))
      else - 1)"

function splitext_scan :: "string \<Rightarrow> nat \<Rightarrow> nat \<Rightarrow> bool" where
  "splitext_scan p filenameIndex dotIndex =
     (if filenameIndex < dotIndex then
        (if take 1 (drop filenameIndex p) \<noteq> ''.'' then True
         else splitext_scan p (filenameIndex + 1) dotIndex)
      else False)"
  by pat_completeness auto
termination
  by (relation "measure (\<lambda>(p, i, d). d - i)") auto

declare splitext_scan.simps [simp del]

definition splitext :: "string \<Rightarrow> string \<times> string" where
  "splitext p =
     (let sepIndex = rfind p CHR ''/'';
          dotIndex = rfind p CHR ''.''
      in if dotIndex > sepIndex \<and> splitext_scan p (nat (sepIndex + 1)) (nat dotIndex)
         then (take (nat dotIndex) p, drop (nat dotIndex) p)
         else (p, []))"

definition lstrip :: "string \<Rightarrow> char \<Rightarrow> string" where
  "lstrip s c = dropWhile (\<lambda>x. x = c) s"

subsection \<open>\<^verbatim>\<open>iter_hash\<close>\<close>

text \<open>
  The generator object made by \<^verbatim>\<open>iter_hash(data_iter, hash)\<close>: what is left of the wrapped
  iterator, the state of the caller's hash object, and the log of what the generator has
  done.  \<open>upd\<close> is the hash object's \<^verbatim>\<open>update\<close> method, taken to accept every chunk.  One
  \<^verbatim>\<open>next()\<close> runs the body up to the next \<^verbatim>\<open>yield\<close>.  The log is bookkeeping of the
  model: it records the order of \<^verbatim>\<open>hash.update(data)\<close> and \<^verbatim>\<open>yield data\<close>.
\<close>

datatype event = Absorbed chunk | Yielded chunk

datatype 'a next_result = NextStop | NextRaise error | NextItem 'a

record 'h hash_gen =
  remaining :: "chunk iter"
  digest :: 'h
  events :: "event list"

definition iter_hash :: "chunk iter \<Rightarrow> 'h \<Rightarrow> 'h hash_gen" where
  "iter_hash data_iter h = \<lparr>remaining = data_iter, digest = h, events = []\<rparr>"

definition iter_hash_next :: "('h \<Rightarrow> chunk \<Rightarrow> 'h) \<Rightarrow> 'h hash_gen \<Rightarrow> chunk next_result \<times> 'h hash_gen" where
  "iter_hash_next upd g =
     (case remaining g of
        StopIteration \<Rightarrow> (NextStop, g)
      | Raise e \<Rightarrow> (NextRaise e, g\<lparr>remaining := StopIteration\<rparr>)
      | Yield d rest \<Rightarrow>
          (NextItem d,
           g\<lparr>remaining := rest, digest := upd (digest g) d,
             events := events g @ [Absorbed d, Yielded d]\<rparr>))"

text \<open>A consumer that asks for at most \<open>k\<close> chunks and then abandons the generator.\<close>

fun pull_n :: "('h \<Rightarrow> chunk \<Rightarrow> 'h) \<Rightarrow> nat \<Rightarrow> 'h hash_gen \<Rightarrow> chunk list \<times> 'h hash_gen" where
  "pull_n upd 0 g = ([], g)"
| "pull_n upd (Suc k) g =
     (case iter_hash_next upd g of
        (NextItem d, g') \<Rightarrow> (case pull_n upd k g' of (ds, g'') \<Rightarrow> (d # ds, g''))
      | (NextStop, g') \<Rightarrow> ([], g')
      | (NextRaise e, g') \<Rightarrow> ([], g'))"

text \<open>A consumer that runs the generator to its end (\<^verbatim>\<open>for data in gen\<close>).\<close>

function drain :: "('h \<Rightarrow> chunk \<Rightarrow> 'h) \<Rightarrow> 'h hash_gen \<Rightarrow> (chunk list \<times> error option) \<times> 'h hash_gen" where
  "drain upd g =
     (case iter_hash_next upd g of
        (NextItem d, g') \<Rightarrow> (case drain upd g' of ((ds, e), g'') \<Rightarrow> ((d # ds, e), g''))
      | (NextStop, g') \<Rightarrow> (([], None), g')
      | (NextRaise e, g') \<Rightarrow> (([], Some e), g'))"
  by pat_completeness auto
termination
  by (relation "measure (\<lambda>(upd, g). size (remaining g))")
     (auto simp: iter_hash_next_def split: iter.splits)

declare drain.simps [simp del]

subsection \<open>\<^verbatim>\<open>open_writable_file\<close>, \<^verbatim>\<open>decompressed_filepath\<close>, \<^verbatim>\<open>write_data\<close>\<close>

text \<open>
  \<^verbatim>\<open>compression\<close> is \<^verbatim>\<open>None\<close> or a string; \<^verbatim>\<open>if compression:\<close> holds for a non-empty
  string only.  The registry lookup \<^verbatim>\<open>COMPRESSION_CLASSES[compression]\<close> raises
  \<^verbatim>\<open>KeyError\<close> on a missing key, before the class is called.  \<open>add_extension\<close> is the
  conditional \<^verbatim>\<open>filepath += '.' + compression\<close>; the result of \<open>open_writable_file\<close> is
  the pair of the final filepath and the open stream.
\<close>

definition add_extension :: "string \<Rightarrow> string option \<Rightarrow> string" where
  "add_extension filepath compression =
     (case compression of
        None \<Rightarrow> filepath
      | Some c \<Rightarrow> if c \<noteq> [] then filepath @ ''.'' @ c else filepath)"

definition open_writable_file :: "env \<Rightarrow> string \<Rightarrow> string option \<Rightarrow> world \<Rightarrow> (error + string \<times> stream) \<times> world" where
  "open_writable_file env filepath compression w =
     (let filepath' = add_extension filepath compression
      in case COMPRESSION_CLASSES env compression of
           None \<Rightarrow> (Inl KeyError, w)
         | Some k \<Rightarrow>
             (case open_file k filepath' ''xb'' w of
                (Inl e, w') \<Rightarrow> (Inl e, w')
              | (Inr fileobj, w') \<Rightarrow> (Inr (filepath', fileobj), w')))"

definition decompressed_filepath :: "env \<Rightarrow> string \<Rightarrow> string" where
  "decompressed_filepath env filepath =
     (case splitext filepath of
        (name, ext) \<Rightarrow>
          if FILE_CLASSES env (lstrip ext CHR ''.'') \<noteq> None then name else filepath)"

definition write_data :: "stream \<Rightarrow> chunk \<Rightarrow> error option \<times> stream" where
  "write_data fileobj d =
     (if is_ndarray d \<and> cls fileobj = BufferedWriter then tofile d fileobj
      else stream_write fileobj d)"

subsection \<open>\<^verbatim>\<open>memory_writer\<close> and \<^verbatim>\<open>file_writer\<close>\<close>

definition memory_writer :: "env \<Rightarrow> chunk iter \<Rightarrow> error + chunk list" where
  "memory_writer env data_iter = list_of_iter (iter_data env data_iter)"

text \<open>
  The two \<^verbatim>\<open>for\<close> loops of \<^verbatim>\<open>file_writer\<close>.  An exception from the iterator or from a
  write ends the loop; the stream keeps what it had received until then.
\<close>

fun write_data_loop :: "stream \<Rightarrow> chunk iter \<Rightarrow> error option \<times> stream" where
  "write_data_loop fileobj StopIteration = (None, fileobj)"
| "write_data_loop fileobj (Raise e) = (Some e, fileobj)"
| "write_data_loop fileobj (Yield d it) =
     (case write_data fileobj d of
        (Some e, fileobj') \<Rightarrow> (Some e, fileobj')
      | (None, fileobj') \<Rightarrow> write_data_loop fileobj' it)"

fun write_loop :: "stream \<Rightarrow> chunk iter \<Rightarrow> error option \<times> stream" where
  "write_loop filelike StopIteration = (None, filelike)"
| "write_loop filelike (Raise e) = (Some e, filelike)"
| "write_loop filelike (Yield d it) =
     (case stream_write filelike d of
        (Some e, filelike') \<Rightarrow> (Some e, filelike')
      | (None, filelike') \<Rightarrow> write_loop filelike' it)"

text \<open>
  The destination is a string (\<^verbatim>\<open>isinstance(filelike, str)\<close>) or a file-like object; the
  value returned is the final filepath or that same object.
\<close>

datatype filelike = Path string | Handle ref

datatype returned = Filepath string | Filelike ref

definition file_writer :: "env \<Rightarrow> filelike \<Rightarrow> chunk iter \<Rightarrow> string option \<Rightarrow> world \<Rightarrow> (error + returned) \<times> world" where
  "file_writer env filelike data_iter compression w =
     (case filelike of
        Path s \<Rightarrow>
          (let filepath = decompressed_filepath env s
           in case open_writable_file env filepath compression w of
                (Inl e, w') \<Rightarrow> (Inl e, w')
              | (Inr (filepath', fileobj), w') \<Rightarrow>
                  (case write_data_loop fileobj (iter_data env data_iter) of
                     (Some e, fileobj') \<Rightarrow>
                       (Inl e, w'\<lparr>files := (files w')(filepath' \<mapsto> fileobj')\<rparr>)
                   | (None, fileobj') \<Rightarrow>
                       (Inr (Filepath filepath'), w'\<lparr>files := (files w')(filepath' \<mapsto> fileobj')\<rparr>)))
      | Handle r \<Rightarrow>
          (let data_iter1 = iter_as_dtype env (iter_data env data_iter) None;
               data_iter2 =
                 (case compression of
                    None \<Rightarrow> data_iter1
                  | Some c \<Rightarrow> if c \<noteq> [] then iter_compress env data_iter1 c else data_iter1)
           in case write_loop (handles w r) data_iter2 of
                (Some e, filelike') \<Rightarrow> (Inl e, w\<lparr>handles := (handles w)(r := filelike')\<rparr>)
              | (None, filelike') \<Rightarrow> (Inr (Filelike r), w\<lparr>handles := (handles w)(r := filelike')\<rparr>)))"

text \<open>A call that leaves \<^verbatim>\<open>compression\<close> out takes the module's default.\<close>

definition file_writer_default :: "env \<Rightarrow> filelike \<Rightarrow> chunk iter \<Rightarrow> world \<Rightarrow> (error + returned) \<times> world" where
  "file_writer_default env filelike data_iter w =
     file_writer env filelike data_iter (DEFAULT_COMPRESSION env) w"

subsection \<open>What numpy and the interpreter do to the stream\<close>


text \<open>
  What the interpreter does with a stream object that nothing refers to any more: the
  finalizer of an \<^verbatim>\<open>io\<close> stream calls \<^verbatim>\<open>close()\<close> on it if it is still open.
\<close>

definition finalize :: "stream \<Rightarrow> stream" where
  "finalize f =
     (if is_closed f then f else f\<lparr>calls := calls f @ [CallClose], is_closed := True\<rparr>)"

text \<open>
  A call of \<^verbatim>\<open>file_writer\<close> as its caller finds the world once the call has returned or
  raised and its frame is gone.  \<open>file_writer\<close> above is the body up to the \<^verbatim>\<open>return\<close> or
  the exception.  A stream the body has opened (on a file that did not exist before) is
  referred to by the local \<^verbatim>\<open>fileobj\<close> only: the body neither returns nor stores it, and
  the file classes are taken to keep no reference of their own.  At the exit the
  reference count of that stream drops to zero and it is finalized.  A handle belongs to
  the caller and is not touched.
\<close>

definition file_writer_call :: "env \<Rightarrow> filelike \<Rightarrow> chunk iter \<Rightarrow> string option \<Rightarrow> world \<Rightarrow> (error + returned) \<times> world" where
  "file_writer_call env filelike data_iter compression w =
     (case file_writer env filelike data_iter compression w of
        (res, w') \<Rightarrow>
          (res,
           w'\<lparr>files := (\<lambda>p. if files w p = None then map_option finalize (files w' p)
                             else files w' p)\<rparr>))"

section \<open>A sample configuration\<close>

text \<open>
  One concrete choice of the collaborators, on which the functions can be run: plain
  files and a \<^verbatim>\<open>gz\<close> codec, a normalizer that passes chunks through, a coercion that turns
  an array into its buffer when no dtype is asked for, and a compressing transform that
  marks every chunk it has compressed.
\<close>

fun as_bytes :: "chunk \<Rightarrow> chunk" where
  "as_bytes (NdArray dt b) = Other b"
| "as_bytes (Other b) = Other b"

fun sample_compress :: "chunk \<Rightarrow> chunk" where
  "sample_compress (NdArray dt b) = Other (''z'' @ b)"
| "sample_compress (Other b) = Other (''z'' @ b)"

definition sample_env :: env where
  "sample_env =
     \<lparr>COMPRESSION_CLASSES = [None \<mapsto> BufferedWriter, Some ''gz'' \<mapsto> CodecFile ''gz''],
      DEFAULT_COMPRESSION = None,
      FILE_CLASSES = [''csv'' \<mapsto> BufferedWriter, ''gz'' \<mapsto> CodecFile ''gz''],
      iter_data = (\<lambda>it. it),
      iter_as_dtype = (\<lambda>it dt. case dt of None \<Rightarrow> map_iter as_bytes it | Some t \<Rightarrow> it),
      iter_compress = (\<lambda>it c. if c = ''gz'' then map_iter sample_compress it else Raise KeyError)\<rparr>"

definition sample_world :: world where
  "sample_world = \<lparr>files = Map.empty, handles = (\<lambda>r. fresh_stream (CodecFile ''pipe''))\<rparr>"

section \<open>Properties of the loops\<close>

lemma write_data_open:
  "\<not> is_closed fileobj \<Longrightarrow>
   write_data fileobj d =
     (None, fileobj\<lparr>calls := calls fileobj @
        [if is_ndarray d \<and> cls fileobj = BufferedWriter then CallToFile d else CallWrite d]\<rparr>)"
  by (simp add: write_data_def tofile_def stream_write_def)

lemma write_data_loop_open:
  "\<not> is_closed fileobj \<Longrightarrow>
   write_data_loop fileobj it =
     (ending it,
      fileobj\<lparr>calls := calls fileobj @
        map (\<lambda>d. if is_ndarray d \<and> cls fileobj = BufferedWriter then CallToFile d else CallWrite d)
          (yields it)\<rparr>)"
proof (induction it arbitrary: fileobj)
  case StopIteration
  show ?case by simp
next
  case (Raise e)
  show ?case by simp
next
  case (Yield d it)
  let ?f = "fileobj\<lparr>calls := calls fileobj @
    [if is_ndarray d \<and> cls fileobj = BufferedWriter then CallToFile d else CallWrite d]\<rparr>"
  have step: "write_data fileobj d = (None, ?f)"
    using Yield.prems by (rule write_data_open)
  have "\<not> is_closed ?f"
    using Yield.prems by simp
  from Yield.IH [OF this] step show ?case
    by simp
qed

lemma write_loop_open:
  "\<not> is_closed filelike \<Longrightarrow>
   write_loop filelike it =
     (ending it, filelike\<lparr>calls := calls filelike @ map CallWrite (yields it)\<rparr>)"
proof (induction it arbitrary: filelike)
  case StopIteration
  show ?case by simp
next
  case (Raise e)
  show ?case by simp
next
  case (Yield d it)
  let ?f = "filelike\<lparr>calls := calls filelike @ [CallWrite d]\<rparr>"
  have step: "stream_write filelike d = (None, ?f)"
    using Yield.prems by (simp add: stream_write_def)
  have "\<not> is_closed ?f"
    using Yield.prems by simp
  from Yield.IH [OF this] step show ?case
    by simp
qed

section \<open>The two branches of \<^verbatim>\<open>file_writer\<close>\<close>


lemma file_writer_path_exists:
  "COMPRESSION_CLASSES env compression = Some k \<Longrightarrow>
   add_extension (decompressed_filepath env s) compression = target \<Longrightarrow>
   files w target = Some f \<Longrightarrow>
   file_writer env (Path s) data_iter compression w = (Inl FileExistsError, w)"
  by (simp add: file_writer_def open_writable_file_def open_file_def)

lemma file_writer_path_created:
  assumes "COMPRESSION_CLASSES env compression = Some k"
    and "add_extension (decompressed_filepath env s) compression = target"
    and "files w target = None"
  shows "file_writer env (Path s) data_iter compression w =
    ((case ending (iter_data env data_iter) of
        None \<Rightarrow> Inr (Filepath target)
      | Some e \<Rightarrow> Inl e),
     w\<lparr>files := (files w)(target \<mapsto>
        \<lparr>cls = k,
         calls = map (\<lambda>d. if is_ndarray d \<and> k = BufferedWriter then CallToFile d else CallWrite d)
                   (yields (iter_data env data_iter)),
         is_closed = False\<rparr>)\<rparr>)"
proof -
  have "\<not> is_closed (fresh_stream k)"
    by (simp add: fresh_stream_def)
  from write_data_loop_open [OF this, of "iter_data env data_iter"] assms show ?thesis
    by (simp add: file_writer_def open_writable_file_def open_file_def fresh_stream_def Let_def
        split: option.split)
qed

lemma file_writer_handle_open:
  assumes "\<not> is_closed (handles w r)"
  shows "file_writer env (Handle r) data_iter compression w =
    (let out = (case compression of
                  None \<Rightarrow> iter_as_dtype env (iter_data env data_iter) None
                | Some c \<Rightarrow>
                    if c \<noteq> [] then iter_compress env (iter_as_dtype env (iter_data env data_iter) None) c
                    else iter_as_dtype env (iter_data env data_iter) None)
     in ((case ending out of None \<Rightarrow> Inr (Filelike r) | Some e \<Rightarrow> Inl e),
         w\<lparr>handles := (handles w)(r := (handles w r)\<lparr>calls := calls (handles w r) @ map CallWrite (yields out)\<rparr>)\<rparr>))"
  using assms
  by (simp add: file_writer_def write_loop_open Let_def split: option.split)

lemma splitext_append: "splitext p = (name, ext) \<Longrightarrow> name @ ext = p"
  by (cases "rfind p CHR ''/'' < rfind p CHR ''.'' \<and>
      splitext_scan p (nat (rfind p CHR ''/'' + 1)) (nat (rfind p CHR ''.''))")
    (auto simp add: splitext_def Let_def)

lemma splitext_out_csv: "splitext ''out.csv'' = (''out'', ''.csv'')"
  by (simp add: splitext_def rfind_def splitext_scan.simps)

lemma splitext_out_gz: "splitext ''out.gz'' = (''out'', ''.gz'')"
  by (simp add: splitext_def rfind_def splitext_scan.simps)

lemma splitext_out: "splitext ''out'' = (''out'', [])"
  by (simp add: splitext_def rfind_def splitext_scan.simps)

section \<open>The chunk sink\<close>

text \<open>
  Claim C6.  On an open stream \<^verbatim>\<open>write_data\<close> hands the chunk to \<^verbatim>\<open>data.tofile(fileobj)\<close>
  exactly when the chunk is a numpy array and the stream is a \<^verbatim>\<open>BufferedWriter\<close>; in every
  other combination it calls \<^verbatim>\<open>fileobj.write(data)\<close> with the chunk as it is.  Either way
  the stream receives exactly one call, carrying the unchanged chunk.
\<close>

theorem write_data_fast_path_iff:
  assumes "\<not> is_closed fileobj"
  shows "(write_data fileobj d = tofile d fileobj \<longleftrightarrow> is_ndarray d \<and> cls fileobj = BufferedWriter)
    \<and> (write_data fileobj d = stream_write fileobj d \<longleftrightarrow> \<not> (is_ndarray d \<and> cls fileobj = BufferedWriter))
    \<and> write_data fileobj d =
        (None, fileobj\<lparr>calls := calls fileobj @
           [if is_ndarray d \<and> cls fileobj = BufferedWriter then CallToFile d else CallWrite d]\<rparr>)"
proof -
  have differ: "tofile d fileobj \<noteq> stream_write fileobj d"
  proof
    assume "tofile d fileobj = stream_write fileobj d"
    then have "calls (snd (tofile d fileobj)) = calls (snd (stream_write fileobj d))"
      by simp
    with assms show False
      by (simp add: tofile_def stream_write_def)
  qed
  show ?thesis
  proof (cases "is_ndarray d \<and> cls fileobj = BufferedWriter")
    case True
    with assms differ show ?thesis
      by (simp add: write_data_def tofile_def)
  next
    case False
    with assms differ show ?thesis
      by (auto simp add: write_data_def stream_write_def)
  qed
qed

theorem write_data_fast_path_witness:
  "\<not> is_closed (fresh_stream BufferedWriter)
   \<and> write_data (fresh_stream BufferedWriter) (NdArray ''u1'' ''ab'')
       = tofile (NdArray ''u1'' ''ab'') (fresh_stream BufferedWriter)
   \<and> write_data (fresh_stream BufferedWriter) (Other ''ab'')
       = stream_write (fresh_stream BufferedWriter) (Other ''ab'')
   \<and> write_data (fresh_stream (CodecFile ''gz'')) (NdArray ''u1'' ''ab'')
       = (None, \<lparr>cls = CodecFile ''gz'', calls = [CallWrite (NdArray ''u1'' ''ab'')], is_closed = False\<rparr>)"
proof -
  have o1: "\<not> is_closed (fresh_stream BufferedWriter)"
    by (simp add: fresh_stream_def)
  have o2: "\<not> is_closed (fresh_stream (CodecFile ''gz''))"
    by (simp add: fresh_stream_def)
  from write_data_fast_path_iff [OF o1, of "NdArray ''u1'' ''ab''"]
  have a: "write_data (fresh_stream BufferedWriter) (NdArray ''u1'' ''ab'')
       = tofile (NdArray ''u1'' ''ab'') (fresh_stream BufferedWriter)"
    by (simp add: fresh_stream_def)
  from write_data_fast_path_iff [OF o1, of "Other ''ab''"]
  have b: "write_data (fresh_stream BufferedWriter) (Other ''ab'')
       = stream_write (fresh_stream BufferedWriter) (Other ''ab'')"
    by simp
  from write_data_fast_path_iff [OF o2, of "NdArray ''u1'' ''ab''", THEN conjunct2, THEN conjunct2]
  have c: "write_data (fresh_stream (CodecFile ''gz'')) (NdArray ''u1'' ''ab'')
       = (None, \<lparr>cls = CodecFile ''gz'', calls = [CallWrite (NdArray ''u1'' ''ab'')], is_closed = False\<rparr>)"
    by (simp add: fresh_stream_def)
  from o1 a b c show ?thesis
    by blast
qed

section \<open>Naming the file\<close>

text \<open>
  Claim C1.  Let \<^verbatim>\<open>os.path.splitext\<close> split the requested path into \<open>name\<close> and \<open>ext\<close>, and
  let \<open>ext\<close> without its dot be a key of \<^verbatim>\<open>FILE_CLASSES\<close>.  Then \<^verbatim>\<open>file_writer\<close> on that
  path with a codec \<open>c\<close> strips the extension before it appends the codec's: the file
  created, and the filepath returned when the chunks run out without an exception, is
  \<open>name.c\<close>, and no other file appears.  In particular, with \<^verbatim>\<open>csv\<close> among the keys, writing
  to \<^verbatim>\<open>out.csv\<close> with codec \<^verbatim>\<open>gz\<close> creates \<^verbatim>\<open>out.gz\<close>.
\<close>

theorem file_writer_strips_known_extension:
  "(splitext s = (name, ext) \<and> FILE_CLASSES env (lstrip ext CHR ''.'') \<noteq> None \<and> c \<noteq> [] \<and>
    COMPRESSION_CLASSES env (Some c) = Some k \<and> files w (name @ ''.'' @ c) = None \<longrightarrow>
      name @ ext = s \<and> decompressed_filepath env s = name \<and>
      fst (file_writer env (Path s) data_iter (Some c) w) =
        (case ending (iter_data env data_iter) of
           None \<Rightarrow> Inr (Filepath (name @ ''.'' @ c)) | Some e \<Rightarrow> Inl e) \<and>
      dom (files (snd (file_writer env (Path s) data_iter (Some c) w))) =
        insert (name @ ''.'' @ c) (dom (files w)))
   \<and> (FILE_CLASSES env ''csv'' \<noteq> None \<and> COMPRESSION_CLASSES env (Some ''gz'') = Some k \<and>
       files w ''out.gz'' = None \<longrightarrow>
      fst (file_writer env (Path ''out.csv'') data_iter (Some ''gz'') w) =
        (case ending (iter_data env data_iter) of
           None \<Rightarrow> Inr (Filepath ''out.gz'') | Some e \<Rightarrow> Inl e) \<and>
      dom (files (snd (file_writer env (Path ''out.csv'') data_iter (Some ''gz'') w))) =
        insert ''out.gz'' (dom (files w)))"
proof (intro conjI impI)
  assume h: "splitext s = (name, ext) \<and> FILE_CLASSES env (lstrip ext CHR ''.'') \<noteq> None \<and> c \<noteq> [] \<and>
    COMPRESSION_CLASSES env (Some c) = Some k \<and> files w (name @ ''.'' @ c) = None"
  then show "name @ ext = s"
    by (simp add: splitext_append)
  from h show stripped: "decompressed_filepath env s = name"
    by (auto simp add: decompressed_filepath_def)
  from h have target: "add_extension (decompressed_filepath env s) (Some c) = name @ ''.'' @ c"
    by (simp add: stripped add_extension_def)
  from h have reg: "COMPRESSION_CLASSES env (Some c) = Some k"
    and free: "files w (name @ ''.'' @ c) = None"
    by simp_all
  note created = file_writer_path_created [OF reg target free, of data_iter]
  show "fst (file_writer env (Path s) data_iter (Some c) w) =
        (case ending (iter_data env data_iter) of
           None \<Rightarrow> Inr (Filepath (name @ ''.'' @ c)) | Some e \<Rightarrow> Inl e)"
    by (simp add: created)
  show "dom (files (snd (file_writer env (Path s) data_iter (Some c) w))) =
        insert (name @ ''.'' @ c) (dom (files w))"
    by (simp add: created)
next
  assume h: "FILE_CLASSES env ''csv'' \<noteq> None \<and> COMPRESSION_CLASSES env (Some ''gz'') = Some k \<and>
       files w ''out.gz'' = None"
  then have stripped: "decompressed_filepath env ''out.csv'' = ''out''"
    by (auto simp add: decompressed_filepath_def splitext_out_csv lstrip_def)
  have target: "add_extension (decompressed_filepath env ''out.csv'') (Some ''gz'') = ''out.gz''"
    by (simp add: stripped add_extension_def)
  from h have reg: "COMPRESSION_CLASSES env (Some ''gz'') = Some k"
    and free: "files w ''out.gz'' = None"
    by simp_all
  note created = file_writer_path_created [OF reg target free, of data_iter]
  show "fst (file_writer env (Path ''out.csv'') data_iter (Some ''gz'') w) =
        (case ending (iter_data env data_iter) of
           None \<Rightarrow> Inr (Filepath ''out.gz'') | Some e \<Rightarrow> Inl e)"
    by (simp add: created)
  show "dom (files (snd (file_writer env (Path ''out.csv'') data_iter (Some ''gz'') w))) =
        insert ''out.gz'' (dom (files w))"
    by (simp add: created)
qed


theorem file_writer_strips_known_extension_witness:
  "splitext ''run.v2.csv'' = (''run.v2'', ''.csv'')
   \<and> FILE_CLASSES sample_env (lstrip ''.csv'' CHR ''.'') \<noteq> None
   \<and> COMPRESSION_CLASSES sample_env (Some ''gz'') = Some (CodecFile ''gz'')
   \<and> files sample_world ''run.v2.gz'' = None
   \<and> decompressed_filepath sample_env ''run.v2.csv'' = ''run.v2''
   \<and> fst (file_writer sample_env (Path ''run.v2.csv'') (of_list [Other ''ab'']) (Some ''gz'') sample_world)
       = Inr (Filepath ''run.v2.gz'')
   \<and> dom (files (snd (file_writer sample_env (Path ''run.v2.csv'') (of_list [Other ''ab''])
         (Some ''gz'') sample_world))) = {''run.v2.gz''}"
proof -
  have h1: "splitext ''run.v2.csv'' = (''run.v2'', ''.csv'')"
    by (simp add: splitext_def rfind_def splitext_scan.simps)
  have h2: "FILE_CLASSES sample_env (lstrip ''.csv'' CHR ''.'') \<noteq> None"
    by (simp add: sample_env_def lstrip_def)
  have h3: "COMPRESSION_CLASSES sample_env (Some ''gz'') = Some (CodecFile ''gz'')"
    by (simp add: sample_env_def)
  have h4: "files sample_world (''run.v2'' @ ''.'' @ ''gz'') = None"
    by (simp add: sample_world_def)
  have h5: "''gz'' \<noteq> []"
    by simp
  have d: "dom (files sample_world) = {}"
    by (simp add: sample_world_def)
  from file_writer_strips_known_extension
    [where s = "''run.v2.csv''" and name = "''run.v2''" and ext = "''.csv''" and env = sample_env
       and c = "''gz''" and k = "CodecFile ''gz''" and w = sample_world
       and data_iter = "of_list [Other ''ab'']", THEN conjunct1, rule_format]
    h1 h2 h3 h4 h5
  have "''run.v2'' @ ''.csv'' = ''run.v2.csv'' \<and>
      decompressed_filepath sample_env ''run.v2.csv'' = ''run.v2'' \<and>
      fst (file_writer sample_env (Path ''run.v2.csv'') (of_list [Other ''ab'']) (Some ''gz'') sample_world) =
        (case ending (iter_data sample_env (of_list [Other ''ab''])) of
           None \<Rightarrow> Inr (Filepath (''run.v2'' @ ''.'' @ ''gz'')) | Some e \<Rightarrow> Inl e) \<and>
      dom (files (snd (file_writer sample_env (Path ''run.v2.csv'') (of_list [Other ''ab'']) (Some ''gz'') sample_world))) =
        insert (''run.v2'' @ ''.'' @ ''gz'') (dom (files sample_world))"
    by blast
  with h1 h2 h3 h4 show ?thesis
    by (simp add: d sample_env_def)
qed

text \<open>
  Claim C5.  With \<^verbatim>\<open>gz\<close> among the keys of \<^verbatim>\<open>FILE_CLASSES\<close>, writing to the path \<^verbatim>\<open>out\<close>
  with codec \<^verbatim>\<open>gz\<close> creates the file \<^verbatim>\<open>out.gz\<close>, and writing to the path \<^verbatim>\<open>out.gz\<close> with
  the same codec does exactly the same: the extension is not doubled.
\<close>

theorem codec_extension_not_doubled:
  assumes "FILE_CLASSES env ''gz'' \<noteq> None"
    and "COMPRESSION_CLASSES env (Some ''gz'') = Some k"
    and "files w ''out.gz'' = None"
  shows "fst (file_writer env (Path ''out'') data_iter (Some ''gz'') w) =
           (case ending (iter_data env data_iter) of
              None \<Rightarrow> Inr (Filepath ''out.gz'') | Some e \<Rightarrow> Inl e)
    \<and> dom (files (snd (file_writer env (Path ''out'') data_iter (Some ''gz'') w))) =
        insert ''out.gz'' (dom (files w))
    \<and> file_writer env (Path ''out.gz'') data_iter (Some ''gz'') w =
        file_writer env (Path ''out'') data_iter (Some ''gz'') w"
proof -
  have plain: "decompressed_filepath env ''out'' = ''out''"
    by (simp add: decompressed_filepath_def splitext_out)
  have stripped: "decompressed_filepath env ''out.gz'' = ''out''"
    using assms(1) by (auto simp add: decompressed_filepath_def splitext_out_gz lstrip_def)
  have t1: "add_extension (decompressed_filepath env ''out'') (Some ''gz'') = ''out.gz''"
    by (simp add: plain add_extension_def)
  have t2: "add_extension (decompressed_filepath env ''out.gz'') (Some ''gz'') = ''out.gz''"
    by (simp add: stripped add_extension_def)
  note c1 = file_writer_path_created [OF assms(2) t1 assms(3), of data_iter]
  note c2 = file_writer_path_created [OF assms(2) t2 assms(3), of data_iter]
  show ?thesis
    by (simp add: c1 c2)
qed

theorem codec_extension_not_doubled_witness:
  "FILE_CLASSES sample_env ''gz'' \<noteq> None
   \<and> COMPRESSION_CLASSES sample_env (Some ''gz'') = Some (CodecFile ''gz'')
   \<and> files sample_world ''out.gz'' = None
   \<and> fst (file_writer sample_env (Path ''out'') (of_list [Other ''ab'']) (Some ''gz'') sample_world)
       = Inr (Filepath ''out.gz'')
   \<and> fst (file_writer sample_env (Path ''out.gz'') (of_list [Other ''ab'']) (Some ''gz'') sample_world)
       = Inr (Filepath ''out.gz'')
   \<and> dom (files (snd (file_writer sample_env (Path ''out.gz'') (of_list [Other ''ab''])
         (Some ''gz'') sample_world))) = {''out.gz''}"
proof -
  have h1: "FILE_CLASSES sample_env ''gz'' \<noteq> None"
    by (simp add: sample_env_def)
  have h2: "COMPRESSION_CLASSES sample_env (Some ''gz'') = Some (CodecFile ''gz'')"
    by (simp add: sample_env_def)
  have h3: "files sample_world ''out.gz'' = None"
    by (simp add: sample_world_def)
  have d: "dom (files sample_world) = {}"
    by (simp add: sample_world_def)
  from codec_extension_not_doubled [OF h1 h2 h3, of "of_list [Other ''ab'']"] h1 h2 h3
  show ?thesis
    by (simp add: d sample_env_def)
qed

section \<open>Opening the file\<close>

text \<open>
  Claim C2.  \<^verbatim>\<open>open_writable_file\<close> calls the codec's file class with mode \<^verbatim>\<open>'xb'\<close>.  So
  after any \<^verbatim>\<open>file_writer\<close> call on a path with a codec of the registry, a second call that
  resolves to the same final filepath, made in the world the first call left, raises
  \<^verbatim>\<open>FileExistsError\<close> and changes nothing: when the first call created the file, the file
  still holds exactly the calls the first call made on it, nothing dropped and nothing
  added.
\<close>

theorem second_write_raises_file_exists:
  assumes "COMPRESSION_CLASSES env compression = Some k"
    and "COMPRESSION_CLASSES env compression' = Some k'"
    and "add_extension (decompressed_filepath env s') compression' =
         add_extension (decompressed_filepath env s) compression"
    and "file_writer env (Path s) first_iter compression w = (r1, w1)"
  shows "file_writer env (Path s') second_iter compression' w1 = (Inl FileExistsError, w1)
    \<and> (files w (add_extension (decompressed_filepath env s) compression) = None \<longrightarrow>
         files w1 (add_extension (decompressed_filepath env s) compression) =
           Some \<lparr>cls = k,
                 calls = map (\<lambda>d. if is_ndarray d \<and> k = BufferedWriter then CallToFile d else CallWrite d)
                           (yields (iter_data env first_iter)),
                 is_closed = False\<rparr>)"
proof (cases "files w (add_extension (decompressed_filepath env s) compression)")
  case None
  from file_writer_path_created [OF assms(1) refl None, of first_iter] assms(4)
  have w1: "w1 = w\<lparr>files := (files w)(add_extension (decompressed_filepath env s) compression \<mapsto>
        \<lparr>cls = k,
         calls = map (\<lambda>d. if is_ndarray d \<and> k = BufferedWriter then CallToFile d else CallWrite d)
                   (yields (iter_data env first_iter)),
         is_closed = False\<rparr>)\<rparr>"
    by simp
  then have there: "files w1 (add_extension (decompressed_filepath env s) compression) =
      Some \<lparr>cls = k,
         calls = map (\<lambda>d. if is_ndarray d \<and> k = BufferedWriter then CallToFile d else CallWrite d)
                   (yields (iter_data env first_iter)),
         is_closed = False\<rparr>"
    by simp
  from file_writer_path_exists [OF assms(2) assms(3) there] there show ?thesis
    by simp
next
  case (Some f)
  from file_writer_path_exists [OF assms(1) refl Some, of first_iter] assms(4)
  have "w1 = w"
    by simp
  with file_writer_path_exists [OF assms(2) assms(3) Some, of second_iter] Some show ?thesis
    by simp
qed

theorem second_write_raises_file_exists_witness:
  "COMPRESSION_CLASSES sample_env (Some ''gz'') = Some (CodecFile ''gz'')
   \<and> add_extension (decompressed_filepath sample_env ''out'') (Some ''gz'') =
       add_extension (decompressed_filepath sample_env ''out.csv'') (Some ''gz'')
   \<and> fst (file_writer sample_env (Path ''out.csv'') (of_list [Other ''ab'', NdArray ''u1'' ''cd''])
         (Some ''gz'') sample_world) = Inr (Filepath ''out.gz'')
   \<and> file_writer sample_env (Path ''out'') (of_list [Other ''xyz'']) (Some ''gz'')
        (snd (file_writer sample_env (Path ''out.csv'') (of_list [Other ''ab'', NdArray ''u1'' ''cd''])
           (Some ''gz'') sample_world))
       = (Inl FileExistsError,
          snd (file_writer sample_env (Path ''out.csv'') (of_list [Other ''ab'', NdArray ''u1'' ''cd''])
            (Some ''gz'') sample_world))
   \<and> files (snd (file_writer sample_env (Path ''out.csv'') (of_list [Other ''ab'', NdArray ''u1'' ''cd''])
         (Some ''gz'') sample_world)) ''out.gz''
       = Some \<lparr>cls = CodecFile ''gz'',
               calls = [CallWrite (Other ''ab''), CallWrite (NdArray ''u1'' ''cd'')],
               is_closed = False\<rparr>"
proof -
  let ?first = "file_writer sample_env (Path ''out.csv'') (of_list [Other ''ab'', NdArray ''u1'' ''cd''])
    (Some ''gz'') sample_world"
  have h1: "COMPRESSION_CLASSES sample_env (Some ''gz'') = Some (CodecFile ''gz'')"
    by (simp add: sample_env_def)
  have t: "add_extension (decompressed_filepath sample_env ''out.csv'') (Some ''gz'') = ''out.gz''"
    by (simp add: add_extension_def decompressed_filepath_def splitext_out_csv lstrip_def sample_env_def)
  have t': "add_extension (decompressed_filepath sample_env ''out'') (Some ''gz'') = ''out.gz''"
    by (simp add: add_extension_def decompressed_filepath_def splitext_out lstrip_def sample_env_def)
  have h3: "add_extension (decompressed_filepath sample_env ''out'') (Some ''gz'') =
       add_extension (decompressed_filepath sample_env ''out.csv'') (Some ''gz'')"
    by (simp add: t t')
  have h4: "?first = (fst ?first, snd ?first)"
    by simp
  have free: "files sample_world ''out.gz'' = None"
    by (simp add: sample_world_def)
  have ok: "fst ?first = Inr (Filepath ''out.gz'')"
    by (simp add: file_writer_path_created [OF h1 t free]) (simp add: sample_env_def)
  from second_write_raises_file_exists
    [where second_iter = "of_list [Other ''xyz'']", OF h1 h1 h3 h4] t free
  have "file_writer sample_env (Path ''out'') (of_list [Other ''xyz'']) (Some ''gz'') (snd ?first)
          = (Inl FileExistsError, snd ?first)
    \<and> files (snd ?first) ''out.gz'' =
           Some \<lparr>cls = CodecFile ''gz'',
                 calls = map (\<lambda>d. if is_ndarray d \<and> CodecFile ''gz'' = BufferedWriter then CallToFile d else CallWrite d)
                           (yields (iter_data sample_env (of_list [Other ''ab'', NdArray ''u1'' ''cd'']))),
                 is_closed = False\<rparr>"
    by simp
  then have "file_writer sample_env (Path ''out'') (of_list [Other ''xyz'']) (Some ''gz'') (snd ?first)
          = (Inl FileExistsError, snd ?first)
    \<and> files (snd ?first) ''out.gz'' =
           Some \<lparr>cls = CodecFile ''gz'',
                 calls = [CallWrite (Other ''ab''), CallWrite (NdArray ''u1'' ''cd'')],
                 is_closed = False\<rparr>"
    by (simp add: sample_env_def)
  with h1 h3 ok show ?thesis
    by blast
qed

section \<open>Writing to a handle\<close>

text \<open>
  Claim C3.  For a destination that is an open file-like object, \<^verbatim>\<open>file_writer\<close> passes the
  chunks through \<^verbatim>\<open>iter_data\<close> and then through \<^verbatim>\<open>iter_as_dtype\<close> with dtype \<^verbatim>\<open>None\<close>; it
  wraps the result in \<^verbatim>\<open>iter_compress\<close> exactly when the codec is a non-empty name, and not
  when it is \<^verbatim>\<open>None\<close> or empty; every chunk of the resulting iterator is handed to the
  object's \<^verbatim>\<open>write\<close>, in order; and the value returned is the same object.  Nothing else
  in the world changes.
\<close>

theorem file_writer_handle_pipeline:
  assumes "\<not> is_closed (handles w r)"
  shows "(c \<noteq> [] \<longrightarrow>
      file_writer env (Handle r) data_iter (Some c) w =
        ((case ending (iter_compress env (iter_as_dtype env (iter_data env data_iter) None) c) of
            None \<Rightarrow> Inr (Filelike r) | Some e \<Rightarrow> Inl e),
         w\<lparr>handles := (handles w)(r := (handles w r)\<lparr>calls := calls (handles w r) @
            map CallWrite (yields (iter_compress env (iter_as_dtype env (iter_data env data_iter) None) c))\<rparr>)\<rparr>))
    \<and> (compression = None \<or> compression = Some [] \<longrightarrow>
      file_writer env (Handle r) data_iter compression w =
        ((case ending (iter_as_dtype env (iter_data env data_iter) None) of
            None \<Rightarrow> Inr (Filelike r) | Some e \<Rightarrow> Inl e),
         w\<lparr>handles := (handles w)(r := (handles w r)\<lparr>calls := calls (handles w r) @
            map CallWrite (yields (iter_as_dtype env (iter_data env data_iter) None))\<rparr>)\<rparr>))"
proof (intro conjI impI)
  assume "c \<noteq> []"
  with file_writer_handle_open [OF assms, of env data_iter "Some c"]
  show "file_writer env (Handle r) data_iter (Some c) w =
        ((case ending (iter_compress env (iter_as_dtype env (iter_data env data_iter) None) c) of
            None \<Rightarrow> Inr (Filelike r) | Some e \<Rightarrow> Inl e),
         w\<lparr>handles := (handles w)(r := (handles w r)\<lparr>calls := calls (handles w r) @
            map CallWrite (yields (iter_compress env (iter_as_dtype env (iter_data env data_iter) None) c))\<rparr>)\<rparr>)"
    by (simp add: Let_def)
next
  assume "compression = None \<or> compression = Some []"
  with file_writer_handle_open [OF assms, of env data_iter compression]
  show "file_writer env (Handle r) data_iter compression w =
        ((case ending (iter_as_dtype env (iter_data env data_iter) None) of
            None \<Rightarrow> Inr (Filelike r) | Some e \<Rightarrow> Inl e),
         w\<lparr>handles := (handles w)(r := (handles w r)\<lparr>calls := calls (handles w r) @
            map CallWrite (yields (iter_as_dtype env (iter_data env data_iter) None))\<rparr>)\<rparr>)"
    by (auto simp add: Let_def)
qed

theorem file_writer_handle_pipeline_witness:
  "\<not> is_closed (handles sample_world 3)
   \<and> file_writer sample_env (Handle 3) (of_list [NdArray ''u1'' ''ab'', Other ''cd'']) (Some ''gz'') sample_world
       = (Inr (Filelike 3),
          sample_world\<lparr>handles := (handles sample_world)(3 :=
            \<lparr>cls = CodecFile ''pipe'',
             calls = [CallWrite (Other ''zab''), CallWrite (Other ''zcd'')],
             is_closed = False\<rparr>)\<rparr>)
   \<and> file_writer sample_env (Handle 3) (of_list [NdArray ''u1'' ''ab'', Other ''cd'']) None sample_world
       = (Inr (Filelike 3),
          sample_world\<lparr>handles := (handles sample_world)(3 :=
            \<lparr>cls = CodecFile ''pipe'',
             calls = [CallWrite (Other ''ab''), CallWrite (Other ''cd'')],
             is_closed = False\<rparr>)\<rparr>)"
proof -
  have h: "\<not> is_closed (handles sample_world 3)"
    by (simp add: sample_world_def fresh_stream_def)
  have hs: "handles sample_world 3 = \<lparr>cls = CodecFile ''pipe'', calls = [], is_closed = False\<rparr>"
    by (simp add: sample_world_def fresh_stream_def)
  note t = file_writer_handle_pipeline [OF h, of "''gz''" sample_env "of_list [NdArray ''u1'' ''ab'', Other ''cd'']" None]
  from t [THEN conjunct1]
  have a: "file_writer sample_env (Handle 3) (of_list [NdArray ''u1'' ''ab'', Other ''cd'']) (Some ''gz'') sample_world
       = (Inr (Filelike 3),
          sample_world\<lparr>handles := (handles sample_world)(3 :=
            \<lparr>cls = CodecFile ''pipe'',
             calls = [CallWrite (Other ''zab''), CallWrite (Other ''zcd'')],
             is_closed = False\<rparr>)\<rparr>)"
    by (simp add: hs sample_env_def)
  from t [THEN conjunct2]
  have b: "file_writer sample_env (Handle 3) (of_list [NdArray ''u1'' ''ab'', Other ''cd'']) None sample_world
       = (Inr (Filelike 3),
          sample_world\<lparr>handles := (handles sample_world)(3 :=
            \<lparr>cls = CodecFile ''pipe'',
             calls = [CallWrite (Other ''ab''), CallWrite (Other ''cd'')],
             is_closed = False\<rparr>)\<rparr>)"
    by (simp add: hs sample_env_def)
  from h a b show ?thesis
    by blast
qed


text \<open>
  Claim C8.  \<^verbatim>\<open>file_writer\<close> issues exactly one write for every chunk of the iterator it
  loops over, in the order that iterator yields them.  On an open handle the calls added
  are the \<^verbatim>\<open>write\<close> calls for the chunks of the normalized, coerced and possibly compressed
  iterator, one after the other; on a path the calls received by the new file are those
  of \<^verbatim>\<open>write_data\<close> for the chunks of the normalized iterator.  Nothing is skipped, repeated,
  reordered or merged.
\<close>

theorem one_write_per_chunk_in_order:
  "(\<not> is_closed (handles w r) \<longrightarrow>
      calls (handles (snd (file_writer env (Handle r) data_iter compression w)) r) =
        calls (handles w r) @
        map CallWrite
          (yields (case compression of
                     None \<Rightarrow> iter_as_dtype env (iter_data env data_iter) None
                   | Some c \<Rightarrow>
                       if c \<noteq> [] then iter_compress env (iter_as_dtype env (iter_data env data_iter) None) c
                       else iter_as_dtype env (iter_data env data_iter) None)))
   \<and> (COMPRESSION_CLASSES env compression = Some k \<and>
       files w (add_extension (decompressed_filepath env s) compression) = None \<longrightarrow>
      map_option calls
        (files (snd (file_writer env (Path s) data_iter compression w))
           (add_extension (decompressed_filepath env s) compression)) =
        Some (map (\<lambda>d. if is_ndarray d \<and> k = BufferedWriter then CallToFile d else CallWrite d)
                (yields (iter_data env data_iter))))"
proof (intro conjI impI)
  assume "\<not> is_closed (handles w r)"
  from file_writer_handle_open [OF this, of env data_iter compression]
  show "calls (handles (snd (file_writer env (Handle r) data_iter compression w)) r) =
        calls (handles w r) @
        map CallWrite
          (yields (case compression of
                     None \<Rightarrow> iter_as_dtype env (iter_data env data_iter) None
                   | Some c \<Rightarrow>
                       if c \<noteq> [] then iter_compress env (iter_as_dtype env (iter_data env data_iter) None) c
                       else iter_as_dtype env (iter_data env data_iter) None))"
    by (simp add: Let_def)
next
  assume "COMPRESSION_CLASSES env compression = Some k \<and>
       files w (add_extension (decompressed_filepath env s) compression) = None"
  then have reg: "COMPRESSION_CLASSES env compression = Some k"
    and free: "files w (add_extension (decompressed_filepath env s) compression) = None"
    by simp_all
  from file_writer_path_created [OF reg refl free, of data_iter]
  show "map_option calls
        (files (snd (file_writer env (Path s) data_iter compression w))
           (add_extension (decompressed_filepath env s) compression)) =
        Some (map (\<lambda>d. if is_ndarray d \<and> k = BufferedWriter then CallToFile d else CallWrite d)
                (yields (iter_data env data_iter)))"
    by simp
qed

theorem one_write_per_chunk_in_order_witness:
  "\<not> is_closed (handles sample_world 0)
   \<and> calls (handles (snd (file_writer sample_env (Handle 0)
        (of_list [Other ''a'', Other ''b'', Other ''a'']) (Some ''gz'') sample_world)) 0)
       = [CallWrite (Other ''za''), CallWrite (Other ''zb''), CallWrite (Other ''za'')]
   \<and> COMPRESSION_CLASSES sample_env None = Some BufferedWriter
   \<and> files sample_world ''log'' = None
   \<and> map_option calls (files (snd (file_writer sample_env (Path ''log'')
        (of_list [Other ''a'', NdArray ''u1'' ''b'', Other ''a'']) None sample_world)) ''log'')
       = Some [CallWrite (Other ''a''), CallToFile (NdArray ''u1'' ''b''), CallWrite (Other ''a'')]"
proof -
  have h: "\<not> is_closed (handles sample_world 0)"
    by (simp add: sample_world_def fresh_stream_def)
  have hs: "calls (handles sample_world 0) = []"
    by (simp add: sample_world_def fresh_stream_def)
  have reg: "COMPRESSION_CLASSES sample_env None = Some BufferedWriter"
    by (simp add: sample_env_def)
  have free: "files sample_world ''log'' = None"
    by (simp add: sample_world_def)
  have t: "add_extension (decompressed_filepath sample_env ''log'') None = ''log''"
    by (simp add: add_extension_def decompressed_filepath_def splitext_def rfind_def lstrip_def
        splitext_scan.simps sample_env_def)
  from one_write_per_chunk_in_order
    [where w = sample_world and r = 0 and env = sample_env and compression = "Some ''gz''"
       and data_iter = "of_list [Other ''a'', Other ''b'', Other ''a'']", THEN conjunct1] h
  have a: "calls (handles (snd (file_writer sample_env (Handle 0)
        (of_list [Other ''a'', Other ''b'', Other ''a'']) (Some ''gz'') sample_world)) 0)
       = [CallWrite (Other ''za''), CallWrite (Other ''zb''), CallWrite (Other ''za'')]"
    by (simp add: hs sample_env_def)
  from one_write_per_chunk_in_order
    [where w = sample_world and env = sample_env and compression = None and k = BufferedWriter
       and s = "''log''" and data_iter = "of_list [Other ''a'', NdArray ''u1'' ''b'', Other ''a'']",
     THEN conjunct2] reg free
  have b: "map_option calls (files (snd (file_writer sample_env (Path ''log'')
        (of_list [Other ''a'', NdArray ''u1'' ''b'', Other ''a'']) None sample_world)) ''log'')
       = Some [CallWrite (Other ''a''), CallToFile (NdArray ''u1'' ''b''), CallWrite (Other ''a'')]"
    by (simp add: t) (simp add: sample_env_def)
  from h a reg free b show ?thesis
    by blast
qed

section \<open>Iterators built from lists\<close>

lemma yields_of_list: "yields (of_list xs) = xs"
  by (induction xs) simp_all

lemma ending_of_list: "ending (of_list xs) = None"
  by (induction xs) simp_all

section \<open>The hashing tap\<close>

lemma drain_eq:
  "drain upd g =
     ((yields (remaining g), ending (remaining g)),
      g\<lparr>remaining := StopIteration,
        digest := foldl upd (digest g) (yields (remaining g)),
        events := events g @ concat (map (\<lambda>c. [Absorbed c, Yielded c]) (yields (remaining g)))\<rparr>)"
proof (induction "remaining g" arbitrary: g)
  case StopIteration
  from StopIteration [symmetric] show ?case
    by (subst drain.simps) (simp add: iter_hash_next_def)
next
  case (Raise e)
  from Raise [symmetric] show ?case
    by (subst drain.simps) (simp add: iter_hash_next_def)
next
  case (Yield d it)
  let ?g = "g\<lparr>remaining := it, digest := upd (digest g) d,
             events := events g @ [Absorbed d, Yielded d]\<rparr>"
  have "it = remaining ?g"
    by simp
  from Yield.hyps(1) [OF this] Yield.hyps(2) [symmetric] show ?case
    by (subst drain.simps) (simp add: iter_hash_next_def)
qed

lemma pull_n_eq:
  "remaining g = of_list cs \<Longrightarrow>
   pull_n upd k g =
     (take k cs,
      g\<lparr>remaining := of_list (drop k cs),
        digest := foldl upd (digest g) (take k cs),
        events := events g @ concat (map (\<lambda>c. [Absorbed c, Yielded c]) (take k cs))\<rparr>)"
proof (induction k arbitrary: g cs)
  case 0
  then show ?case by simp
next
  case (Suc k)
  show ?case
  proof (cases cs)
    case Nil
    with Suc.prems show ?thesis
      by (simp add: iter_hash_next_def)
  next
    case (Cons d ds)
    let ?g = "g\<lparr>remaining := of_list ds, digest := upd (digest g) d,
               events := events g @ [Absorbed d, Yielded d]\<rparr>"
    have "remaining ?g = of_list ds"
      by simp
    from Suc.IH [OF this] Suc.prems Cons show ?thesis
      by (simp add: iter_hash_next_def)
  qed
qed

text \<open>
  Claim C4.  Running the generator of \<^verbatim>\<open>iter_hash\<close> over the chunks \<open>cs\<close> to its end yields
  exactly \<open>cs\<close>, and leaves the hash object in the state reached by absorbing \<open>cs\<close> in order.
  The log of the generator shows every chunk absorbed once, immediately before it is
  yielded.  A consumer that takes \<open>k\<close> chunks and stops has received the first \<open>k\<close> chunks
  and leaves the hash object having absorbed exactly those.
\<close>

theorem iter_hash_transparent:
  "drain upd (iter_hash (of_list cs) h) =
     ((cs, None),
      \<lparr>remaining = StopIteration, digest = foldl upd h cs,
       events = concat (map (\<lambda>c. [Absorbed c, Yielded c]) cs)\<rparr>)
   \<and> pull_n upd k (iter_hash (of_list cs) h) =
     (take k cs,
      \<lparr>remaining = of_list (drop k cs), digest = foldl upd h (take k cs),
       events = concat (map (\<lambda>c. [Absorbed c, Yielded c]) (take k cs))\<rparr>)"
proof
  show "drain upd (iter_hash (of_list cs) h) =
     ((cs, None),
      \<lparr>remaining = StopIteration, digest = foldl upd h cs,
       events = concat (map (\<lambda>c. [Absorbed c, Yielded c]) cs)\<rparr>)"
    by (simp add: drain_eq iter_hash_def yields_of_list ending_of_list)
next
  have "remaining (iter_hash (of_list cs) h) = of_list cs"
    by (simp add: iter_hash_def)
  from pull_n_eq [OF this, of upd k]
  show "pull_n upd k (iter_hash (of_list cs) h) =
     (take k cs,
      \<lparr>remaining = of_list (drop k cs), digest = foldl upd h (take k cs),
       events = concat (map (\<lambda>c. [Absorbed c, Yielded c]) (take k cs))\<rparr>)"
    by (simp add: iter_hash_def)
qed

theorem iter_hash_transparent_witness:
  "drain (\<lambda>h c. h @ [c]) (iter_hash (of_list [Other ''a'', NdArray ''u1'' ''b'', Other ''c'']) []) =
     (([Other ''a'', NdArray ''u1'' ''b'', Other ''c''], None),
      \<lparr>remaining = StopIteration,
       digest = [Other ''a'', NdArray ''u1'' ''b'', Other ''c''],
       events = [Absorbed (Other ''a''), Yielded (Other ''a''),
                 Absorbed (NdArray ''u1'' ''b''), Yielded (NdArray ''u1'' ''b''),
                 Absorbed (Other ''c''), Yielded (Other ''c'')]\<rparr>)
   \<and> pull_n (\<lambda>h c. h @ [c]) 2 (iter_hash (of_list [Other ''a'', NdArray ''u1'' ''b'', Other ''c'']) []) =
     ([Other ''a'', NdArray ''u1'' ''b''],
      \<lparr>remaining = of_list [Other ''c''],
       digest = [Other ''a'', NdArray ''u1'' ''b''],
       events = [Absorbed (Other ''a''), Yielded (Other ''a''),
                 Absorbed (NdArray ''u1'' ''b''), Yielded (NdArray ''u1'' ''b'')]\<rparr>)"
  using iter_hash_transparent
    [of "\<lambda>h c. h @ [c]" "[Other ''a'', NdArray ''u1'' ''b'', Other ''c'']" "[]" 2]
  by simp


section \<open>The stream after the call\<close>





lemma file_writer_handle_files:
  "files (snd (file_writer env (Handle r) data_iter compression w)) = files w"
  by (simp add: file_writer_def Let_def split: prod.split option.split)

lemma file_writer_call_handle:
  "file_writer_call env (Handle r) data_iter compression w =
   file_writer env (Handle r) data_iter compression w"
proof -
  obtain res w' where fw: "file_writer env (Handle r) data_iter compression w = (res, w')"
    by (cases "file_writer env (Handle r) data_iter compression w")
  with file_writer_handle_files [of env r data_iter compression w] have fs: "files w' = files w"
    by simp
  have "(\<lambda>p. if files w p = None then map_option finalize (files w' p) else files w' p) = files w'"
    by (auto simp add: fun_eq_iff fs)
  then show ?thesis
    by (simp add: file_writer_call_def fw)
qed




section \<open>Unknown codec names\<close>



section \<open>Writing to memory\<close>

text \<open>
  \<^verbatim>\<open>memory_writer\<close> returns the chunks of the iterator that \<^verbatim>\<open>iter_data\<close> gives it, in the order
  they are yielded, or raises what that iterator raises.
\<close>

lemma memory_writer_eq:
  "memory_writer env data_iter =
     (case ending (iter_data env data_iter) of
        None \<Rightarrow> Inr (yields (iter_data env data_iter)) | Some e \<Rightarrow> Inl e)"
proof -
  have "list_of_iter it = (case ending it of None \<Rightarrow> Inr (yields it) | Some e \<Rightarrow> Inl e)" for it :: "chunk iter"
    by (induction it) (auto split: option.splits)
  then show ?thesis
    by (simp add: memory_writer_def)
qed

end
